theory Spec2Isabelle
  imports Complex_Main
begin

section \<open>Polymer flooding economic calculator (calc4.py)\<close>

text \<open>
  A shallow embedding of the computational core of \<^verbatim>\<open>calc4.py\<close>: the catalog
  \<^verbatim>\<open>POLYMERS\<close>, \<^verbatim>\<open>npv\<close>, \<^verbatim>\<open>polymer_cost\<close>, \<^verbatim>\<open>generate_revenues\<close>,
  \<^verbatim>\<open>generate_opex\<close>, \<^verbatim>\<open>build_cashflow_for_polymer\<close> and the comparison loop of
  \<^verbatim>\<open>main\<close>.

  Modelling conventions.
  \<^item> A Python \<^verbatim>\<open>float\<close> is a \<^typ>\<open>real\<close>: arithmetic is exact. Rounding to binary64,
    overflow, infinities and NaN are not part of the model.
  \<^item> A Python \<^verbatim>\<open>int\<close> is an \<^typ>\<open>int\<close>.
  \<^item> An exception is a value \<open>Inl e\<close> of the sum type \<open>py_error + 'a\<close>; a normal return
    is \<open>Inr v\<close>.
  \<^item> A \<^verbatim>\<open>for\<close> loop is a recursive function over the list of values it iterates.
\<close>

subsection \<open>Exceptions and primitive operations\<close>

datatype py_error = KeyError | IndexError | ZeroDivisionError | OverflowError

text \<open>Subscription \<^verbatim>\<open>xs[i]\<close> of a list of length \<open>n\<close>: position \<open>i\<close> for
  \<open>0 \<le> i < n\<close>, position \<open>n + i\<close> for \<open>-n \<le> i < 0\<close>, and \<^verbatim>\<open>IndexError\<close> for any
  other \<open>i\<close>.\<close>

definition py_index :: "'a list \<Rightarrow> int \<Rightarrow> py_error + 'a" where
  "py_index xs i =
     (if 0 \<le> i \<and> i < int (length xs) then Inr (xs ! nat i)
      else if i < 0 \<and> - int (length xs) \<le> i then Inr (xs ! nat (int (length xs) + i))
      else Inl IndexError)"

text \<open>Float division \<^verbatim>\<open>a / b\<close>: a zero divisor raises \<^verbatim>\<open>ZeroDivisionError\<close>.\<close>

definition py_truediv :: "real \<Rightarrow> real \<Rightarrow> py_error + real" where
  "py_truediv a b = (if b = 0 then Inl ZeroDivisionError else Inr (a / b))"

text \<open>\<^verbatim>\<open>round(x, ndigits)\<close> on a float with \<open>ndigits \<ge> 0\<close>: the nearest multiple of
  \<open>10 ^ -ndigits\<close>, a value exactly half way going to the even neighbour.\<close>

definition round_half_even :: "real \<Rightarrow> int" where
  "round_half_even y =
     (let f = \<lfloor>y\<rfloor>; d = y - of_int f
      in if d < 1 / 2 then f
         else if 1 / 2 < d then f + 1
         else if even f then f else f + 1)"

subsection \<open>Default settings and the catalog\<close>

definition EQUIPMENT_REPLACEMENT_COST :: int where
  "EQUIPMENT_REPLACEMENT_COST = 30000"

record polymer =
  name :: string
  price_per_kg :: real
  conc_kg_per_m3 :: real
  inj_volume_m3 :: int

text \<open>The dictionary \<^verbatim>\<open>POLYMERS\<close> keeps its insertion order, which the comparison
  loop iterates: an association list with distinct keys.\<close>

definition POLYMERS :: "(string \<times> polymer) list" where
  "POLYMERS =
     [(''hpam'', \<lparr>name = ''Partially hydrolyzed polyacrylamide (HPAM)'',
                  price_per_kg = 13 / 10, conc_kg_per_m3 = 8 / 10, inj_volume_m3 = 100000\<rparr>),
      (''xanthan'', \<lparr>name = ''Xanthan gum (oilfield grade)'',
                  price_per_kg = 24 / 10, conc_kg_per_m3 = 6 / 10, inj_volume_m3 = 100000\<rparr>),
      (''atbs'', \<lparr>name = ''ATBS-modified polyacrylamide'',
                  price_per_kg = 19 / 10, conc_kg_per_m3 = 7 / 10, inj_volume_m3 = 100000\<rparr>)]"

subsection \<open>Math utilities\<close>

text \<open>
  \<^verbatim>\<open>
  def npv(cashflows, rate):
      total = 0.0
      for t, cf in enumerate(cashflows, start=1):
          total += cf / ((1 + rate) ** t)
      return total
  \<close>
  The exponent \<open>t\<close> is an integer that starts at 1; \<open>tot\<close> is the variable \<^verbatim>\<open>total\<close>.
\<close>

fun npv_loop :: "nat \<Rightarrow> real list \<Rightarrow> real \<Rightarrow> real \<Rightarrow> py_error + real" where
  "npv_loop t [] rate tot = Inr tot"
| "npv_loop t (cf # cfs) rate tot =
     (case py_truediv cf ((1 + rate) ^ t) of
        Inl e \<Rightarrow> Inl e
      | Inr q \<Rightarrow> npv_loop (Suc t) cfs rate (tot + q))"

definition npv :: "real list \<Rightarrow> real \<Rightarrow> py_error + real" where
  "npv cashflows rate = npv_loop 1 cashflows rate 0"

text \<open>
  \<^verbatim>\<open>
  def polymer_cost(poly_key):
      data = POLYMERS[poly_key]
      mass = data["conc_kg_per_m3"] * data["inj_volume_m3"]
      return mass * data["price_per_kg"]
  \<close>
\<close>

definition polymer_cost :: "string \<Rightarrow> py_error + real" where
  "polymer_cost poly_key =
     (case map_of POLYMERS poly_key of
        None \<Rightarrow> Inl KeyError
      | Some data \<Rightarrow>
          (let mass = conc_kg_per_m3 data * of_int (inj_volume_m3 data)
           in Inr (mass * price_per_kg data)))"

text \<open>
  \<^verbatim>\<open>
  def generate_opex(years, start, long_growth):
      opex = []
      for year in range(1, years + 1):
          if year <= 10:
              opex.append(start)
          else:
              opex.append(opex[-1] * (1 + long_growth))
      return opex
  \<close>
  \<^verbatim>\<open>range(1, years + 1)\<close> is the list \<open>[1..years]\<close>.
\<close>

fun opex_loop :: "int list \<Rightarrow> real list \<Rightarrow> real \<Rightarrow> real \<Rightarrow> py_error + real list" where
  "opex_loop [] opex start long_growth = Inr opex"
| "opex_loop (year # ys) opex start long_growth =
     (if year \<le> 10 then opex_loop ys (opex @ [start]) start long_growth
      else (case py_index opex (- 1) of
              Inl e \<Rightarrow> Inl e
            | Inr prev \<Rightarrow> opex_loop ys (opex @ [prev * (1 + long_growth)]) start long_growth))"

definition generate_opex :: "int \<Rightarrow> real \<Rightarrow> real \<Rightarrow> py_error + real list" where
  "generate_opex years start long_growth = opex_loop [1..years] [] start long_growth"

subsection \<open>The cash-flow ledger\<close>

text \<open>A row of the ledger: the dictionary appended to \<^verbatim>\<open>rows\<close>, one field per key.\<close>

record year_row =
  year :: int
  revenue :: real
  opex :: real
  polymer_exp :: real
  equipment :: real
  taxable_income :: real
  tax :: real
  net_profit :: real
  cash_flow :: real

text \<open>The dictionary returned by \<^verbatim>\<open>build_cashflow_for_polymer\<close>. Its key \<^verbatim>\<open>"npv"\<close> is
  the field \<open>project_npv\<close>, after the variable it is filled from.\<close>

record polymer_result =
  rows :: "year_row list"
  project_npv :: real
  sum_cf :: real
  cashflows :: "real list"

text \<open>
  \<^verbatim>\<open>
  def build_cashflow_for_polymer(poly_key, years, revenues, opex_list, tax_rate, discount_rate):
      rows = []
      cashflows = []
      sum_cf = 0.0
      poly_cost_val = polymer_cost(poly_key)
      for year in range(1, years + 1):
          revenue = revenues[year - 1]
          opex = opex_list[year - 1]
          poly_exp = poly_cost_val if year == 1 else 0.0
          equipment = EQUIPMENT_REPLACEMENT_COST if year % 10 == 0 and year > 1 else 0.0
          taxable_income = revenue - opex - poly_exp - equipment
          tax = max(taxable_income, 0) * tax_rate
          net_profit = taxable_income - tax
          cash_flow = net_profit
          rows.append({...})
          cashflows.append(cash_flow)
          sum_cf += cash_flow
      project_npv = npv(cashflows, rate=discount_rate)
      return {"rows": rows, "npv": project_npv, "sum_cf": sum_cf, "cashflows": cashflows}
  \<close>
  \<open>ledger_row\<close> is the body of the loop from \<^verbatim>\<open>poly_exp\<close> to the dictionary, once the
  two subscriptions have returned \<open>revenue_y\<close> and \<open>opex_y\<close>.
\<close>

definition ledger_row :: "int \<Rightarrow> real \<Rightarrow> real \<Rightarrow> real \<Rightarrow> real \<Rightarrow> year_row" where
  "ledger_row y revenue_y opex_y tax_rate poly_cost_val =
     (let poly_exp = (if y = 1 then poly_cost_val else 0);
          equip = (if y mod 10 = 0 \<and> 1 < y then of_int EQUIPMENT_REPLACEMENT_COST else 0);
          taxable = revenue_y - opex_y - poly_exp - equip;
          tx = max taxable 0 * tax_rate;
          net = taxable - tx;
          cf = net
      in \<lparr>year = y, revenue = revenue_y, opex = opex_y, polymer_exp = poly_exp, equipment = equip,
          taxable_income = taxable, tax = tx, net_profit = net, cash_flow = cf\<rparr>)"

fun cashflow_loop ::
  "int list \<Rightarrow> real list \<Rightarrow> real list \<Rightarrow> real \<Rightarrow> real
   \<Rightarrow> year_row list \<times> real list \<times> real
   \<Rightarrow> py_error + year_row list \<times> real list \<times> real" where
  "cashflow_loop [] revenues opex_list tax_rate poly_cost_val st = Inr st"
| "cashflow_loop (y # ys) revenues opex_list tax_rate poly_cost_val (rws, cfs, s) =
     (case py_index revenues (y - 1) of
        Inl e \<Rightarrow> Inl e
      | Inr revenue_y \<Rightarrow>
          (case py_index opex_list (y - 1) of
             Inl e \<Rightarrow> Inl e
           | Inr opex_y \<Rightarrow>
               (let row = ledger_row y revenue_y opex_y tax_rate poly_cost_val
                in cashflow_loop ys revenues opex_list tax_rate poly_cost_val
                     (rws @ [row], cfs @ [cash_flow row], s + cash_flow row))))"

definition build_cashflow_for_polymer ::
  "string \<Rightarrow> int \<Rightarrow> real list \<Rightarrow> real list \<Rightarrow> real \<Rightarrow> real
   \<Rightarrow> py_error + polymer_result" where
  "build_cashflow_for_polymer poly_key years revenues opex_list tax_rate discount_rate =
     (case polymer_cost poly_key of
        Inl e \<Rightarrow> Inl e
      | Inr poly_cost_val \<Rightarrow>
          (case cashflow_loop [1..years] revenues opex_list tax_rate poly_cost_val ([], [], 0) of
             Inl e \<Rightarrow> Inl e
           | Inr (rws, cfs, s) \<Rightarrow>
               (case npv cfs discount_rate of
                  Inl e \<Rightarrow> Inl e
                | Inr p \<Rightarrow> Inr \<lparr>rows = rws, project_npv = p, sum_cf = s, cashflows = cfs\<rparr>)))"

datatype pyfloat = NaN | NegInf | PosInf | Fin real

definition pow2 :: "int \<Rightarrow> real" where
  "pow2 e = (if 0 \<le> e then 2 ^ nat e else 1 / 2 ^ nat (- e))"

definition round64 :: "real \<Rightarrow> pyfloat" where
  "round64 x =
     (if x = 0 then Fin 0
      else (let e = max \<lfloor>log 2 \<bar>x\<bar>\<rfloor> (- 1022) - 52;
                y = of_int (round_half_even (x / pow2 e)) * pow2 e
            in if 2 ^ 1024 \<le> y then PosInf
               else if y \<le> - (2 ^ 1024) then NegInf
               else Fin y))"

definition is_b64 :: "pyfloat \<Rightarrow> bool" where
  "is_b64 v = (case v of Fin x \<Rightarrow> round64 x = Fin x | _ \<Rightarrow> True)"

fun fadd :: "pyfloat \<Rightarrow> pyfloat \<Rightarrow> pyfloat" where
  "fadd (Fin a) (Fin b) = round64 (a + b)"
| "fadd NaN v = NaN"
| "fadd v NaN = NaN"
| "fadd PosInf NegInf = NaN"
| "fadd NegInf PosInf = NaN"
| "fadd PosInf v = PosInf"
| "fadd v PosInf = PosInf"
| "fadd NegInf v = NegInf"
| "fadd v NegInf = NegInf"

fun fsub :: "pyfloat \<Rightarrow> pyfloat \<Rightarrow> pyfloat" where
  "fsub (Fin a) (Fin b) = round64 (a - b)"
| "fsub NaN v = NaN"
| "fsub v NaN = NaN"
| "fsub PosInf PosInf = NaN"
| "fsub NegInf NegInf = NaN"
| "fsub PosInf v = PosInf"
| "fsub v PosInf = NegInf"
| "fsub NegInf v = NegInf"
| "fsub v NegInf = PosInf"

fun fmul :: "pyfloat \<Rightarrow> pyfloat \<Rightarrow> pyfloat" where
  "fmul (Fin a) (Fin b) = round64 (a * b)"
| "fmul NaN v = NaN"
| "fmul v NaN = NaN"
| "fmul (Fin a) PosInf = (if a = 0 then NaN else if 0 < a then PosInf else NegInf)"
| "fmul (Fin a) NegInf = (if a = 0 then NaN else if 0 < a then NegInf else PosInf)"
| "fmul PosInf (Fin b) = (if b = 0 then NaN else if 0 < b then PosInf else NegInf)"
| "fmul NegInf (Fin b) = (if b = 0 then NaN else if 0 < b then NegInf else PosInf)"
| "fmul PosInf PosInf = PosInf"
| "fmul PosInf NegInf = NegInf"
| "fmul NegInf PosInf = NegInf"
| "fmul NegInf NegInf = PosInf"

fun fquot :: "pyfloat \<Rightarrow> pyfloat \<Rightarrow> pyfloat" where
  "fquot (Fin a) (Fin b) = round64 (a / b)"
| "fquot NaN v = NaN"
| "fquot v NaN = NaN"
| "fquot (Fin a) v = Fin 0"
| "fquot PosInf (Fin b) = (if 0 < b then PosInf else NegInf)"
| "fquot NegInf (Fin b) = (if 0 < b then NegInf else PosInf)"
| "fquot v w = NaN"

definition fdiv :: "pyfloat \<Rightarrow> pyfloat \<Rightarrow> py_error + pyfloat" where
  "fdiv a b = (if b = Fin 0 then Inl ZeroDivisionError else Inr (fquot a b))"

fun fpow :: "pyfloat \<Rightarrow> nat \<Rightarrow> py_error + pyfloat" where
  "fpow v 0 = Inr (Fin 1)"
| "fpow NaN t = Inr NaN"
| "fpow PosInf t = Inr PosInf"
| "fpow NegInf t = Inr (if odd t then NegInf else PosInf)"
| "fpow (Fin b) t =
     (case round64 (b ^ t) of
        PosInf \<Rightarrow> Inl OverflowError
      | NegInf \<Rightarrow> Inl OverflowError
      | v \<Rightarrow> Inr v)"

fun fgt :: "pyfloat \<Rightarrow> pyfloat \<Rightarrow> bool" where
  "fgt (Fin a) (Fin b) = (b < a)"
| "fgt NaN v = False"
| "fgt v NaN = False"
| "fgt v PosInf = False"
| "fgt NegInf v = False"
| "fgt v w = True"


definition classify :: "real \<Rightarrow> pyfloat" where
  "classify y = (if 2 ^ 1024 \<le> y then PosInf else if y \<le> - (2 ^ 1024) then NegInf else Fin y)"



definition discount_term :: "pyfloat \<Rightarrow> pyfloat \<Rightarrow> nat \<Rightarrow> py_error + pyfloat" where
  "discount_term cf rate t =
     (case fpow (fadd (Fin 1) rate) t of
        Inl e \<Rightarrow> Inl e
      | Inr p \<Rightarrow> fdiv cf p)"

fun npv64_loop :: "nat \<Rightarrow> pyfloat list \<Rightarrow> pyfloat \<Rightarrow> pyfloat \<Rightarrow> py_error + pyfloat" where
  "npv64_loop t [] rate tot = Inr tot"
| "npv64_loop t (cf # cfs) rate tot =
     (case discount_term cf rate t of
        Inl e \<Rightarrow> Inl e
      | Inr q \<Rightarrow> npv64_loop (Suc t) cfs rate (fadd tot q))"

definition npv64 :: "pyfloat list \<Rightarrow> pyfloat \<Rightarrow> py_error + pyfloat" where
  "npv64 cfs rate = npv64_loop 1 cfs rate (Fin 0)"


definition py_round64 :: "pyfloat \<Rightarrow> nat \<Rightarrow> pyfloat" where
  "py_round64 x ndigits =
     (case x of
        Fin a \<Rightarrow> round64 (of_int (round_half_even (a * 10 ^ ndigits)) / 10 ^ ndigits)
      | v \<Rightarrow> v)"

fun revenues64_loop :: "nat \<Rightarrow> pyfloat list \<Rightarrow> pyfloat \<Rightarrow> pyfloat \<Rightarrow> pyfloat list" where
  "revenues64_loop 0 vals cur growth = vals"
| "revenues64_loop (Suc n) vals cur growth =
     revenues64_loop n (vals @ [py_round64 cur 2]) (fmul cur (fadd (Fin 1) growth)) growth"

definition generate_revenues64 :: "int \<Rightarrow> pyfloat \<Rightarrow> pyfloat \<Rightarrow> pyfloat list" where
  "generate_revenues64 years start growth = revenues64_loop (nat years) [] start growth"

section \<open>Properties\<close>

subsection \<open>Net present value\<close>

lemma npv_loop_closed:
  "1 + rate \<noteq> 0 \<Longrightarrow>
   npv_loop t cfs rate tot = Inr (tot + (\<Sum>i<length cfs. cfs ! i / (1 + rate) ^ (t + i)))"
proof (induction cfs arbitrary: t tot)
  case Nil
  show ?case by simp
next
  case (Cons cf cfs)
  have split: "(\<Sum>i<length (cf # cfs). (cf # cfs) ! i / (1 + rate) ^ (t + i))
      = cf / (1 + rate) ^ t + (\<Sum>i<length cfs. cfs ! i / (1 + rate) ^ (Suc t + i))"
  proof -
    have "length (cf # cfs) = Suc (length cfs)" by simp
    then show ?thesis by (simp only: sum.lessThan_Suc_shift) simp
  qed
  have "npv_loop t (cf # cfs) rate tot = npv_loop (Suc t) cfs rate (tot + cf / (1 + rate) ^ t)"
    using Cons.prems by (simp add: py_truediv_def)
  also have "\<dots> = Inr (tot + cf / (1 + rate) ^ t
                     + (\<Sum>i<length cfs. cfs ! i / (1 + rate) ^ (Suc t + i)))"
    by (rule Cons.IH [OF Cons.prems])
  finally show ?case unfolding split by (simp only: add.assoc)
qed

lemma sum_shift_one: "(\<Sum>t = 1..n. f t) = (\<Sum>i<n. f (Suc i))" for f :: "nat \<Rightarrow> real"
  by (induction n) simp_all

lemma npv_closed:
  "1 + rate \<noteq> 0 \<Longrightarrow>
   npv cfs rate = Inr (\<Sum>t = 1..length cfs. cfs ! (t - 1) / (1 + rate) ^ t)"
  unfolding npv_def sum_shift_one by (subst npv_loop_closed) simp_all

text \<open>
  C10. For every rate, \<open>npv\<close> of the empty cash-flow sequence returns 0: the loop body
  never runs and the initial total is returned.
\<close>

theorem npv_empty: "npv [] rate = Inr 0"
  by (simp add: npv_def)

subsection \<open>Revenue and OPEX series\<close>

lemma py_index_last: "acc \<noteq> [] \<Longrightarrow> py_index acc (- 1) = Inr (last acc)"
proof -
  assume ne: "acc \<noteq> []"
  then have pos: "Suc 0 \<le> length acc" by (cases acc) simp_all
  then have "nat (int (length acc) + - 1) = length acc - 1" by simp
  with ne pos show ?thesis by (simp add: py_index_def last_conv_nth)
qed

lemma opex_loop_step:
  assumes "acc \<noteq> [] \<or> y \<le> 10"
  shows "opex_loop (y # ys) acc start g
         = opex_loop ys (acc @ [if y \<le> 10 then start else last acc * (1 + g)]) start g"
  using assms by (auto simp: py_index_last)

lemma opex_loop_shape:
  "acc \<noteq> [] \<or> ys = [] \<or> hd ys \<le> 10 \<Longrightarrow>
   \<exists>new. opex_loop ys acc start g = Inr (acc @ new) \<and> length new = length ys
     \<and> (\<forall>i<length ys. (acc @ new) ! (length acc + i)
            = (if ys ! i \<le> 10 then start else (acc @ new) ! (length acc + i - 1) * (1 + g)))"
proof (induction ys arbitrary: acc)
  case Nil
  show ?case by simp
next
  case (Cons y ys)
  define v where "v = (if y \<le> 10 then start else last acc * (1 + g))"
  from Cons.prems have pre: "acc \<noteq> [] \<or> y \<le> 10" by simp
  then have step: "opex_loop (y # ys) acc start g = opex_loop ys (acc @ [v]) start g"
    unfolding v_def by (rule opex_loop_step)
  have "acc @ [v] \<noteq> [] \<or> ys = [] \<or> hd ys \<le> 10" by simp
  from Cons.IH [OF this] obtain new where
    run: "opex_loop ys (acc @ [v]) start g = Inr ((acc @ [v]) @ new)"
    and len: "length new = length ys"
    and rec: "\<forall>i<length ys. ((acc @ [v]) @ new) ! (length (acc @ [v]) + i)
            = (if ys ! i \<le> 10 then start
               else ((acc @ [v]) @ new) ! (length (acc @ [v]) + i - 1) * (1 + g))"
    by blast
  let ?xs = "acc @ v # new"
  have xs: "(acc @ [v]) @ new = ?xs" by simp
  have "?xs ! (length acc + i)
          = (if (y # ys) ! i \<le> 10 then start else ?xs ! (length acc + i - 1) * (1 + g))"
    if "i < length (y # ys)" for i
  proof (cases i)
    case 0
    have "?xs ! length acc = v" by simp
    moreover have "?xs ! (length acc - 1) = last acc" if "acc \<noteq> []"
      using that by (simp add: nth_append last_conv_nth)
    ultimately show ?thesis using 0 pre by (auto simp: v_def)
  next
    case (Suc k)
    with that have k: "k < length ys" by simp
    from rec k have "?xs ! (length (acc @ [v]) + k)
            = (if ys ! k \<le> 10 then start else ?xs ! (length (acc @ [v]) + k - 1) * (1 + g))"
      unfolding xs by blast
    then show ?thesis using Suc by simp
  qed
  then have "\<forall>i<length (y # ys). ?xs ! (length acc + i)
          = (if (y # ys) ! i \<le> 10 then start else ?xs ! (length acc + i - 1) * (1 + g))"
    by blast
  moreover have "opex_loop (y # ys) acc start g = Inr (acc @ (v # new))"
    using step run by simp
  moreover have "length (v # new) = length (y # ys)" using len by simp
  ultimately show ?case by blast
qed

lemma generate_opex_shape:
  "\<exists>xs. generate_opex years start g = Inr xs \<and> length xs = nat years
     \<and> (\<forall>i<length xs. xs ! i = (if i < 10 then start else xs ! (i - 1) * (1 + g)))"
proof -
  have "[] \<noteq> [] \<or> [1..years] = [] \<or> hd [1..years] \<le> 10"
    by (cases "1 \<le> years") (simp_all add: upto_rec1)
  from opex_loop_shape [OF this, of start g] obtain xs where
    run: "opex_loop [1..years] [] start g = Inr xs" and len: "length xs = length [1..years]"
    and rec: "\<forall>i<length [1..years]. xs ! i
            = (if [1..years] ! i \<le> 10 then start else xs ! (i - 1) * (1 + g))"
    by auto
  have l: "length xs = nat years" using len by simp
  have "xs ! i = (if i < 10 then start else xs ! (i - 1) * (1 + g))" if "i < length xs" for i
  proof -
    from that l have "1 + int i \<le> years" by simp
    then have "[1..years] ! i = 1 + int i" by (rule nth_upto)
    moreover have "(1 + int i \<le> 10) = (i < 10)" by auto
    ultimately show ?thesis using rec that len by simp
  qed
  with run l show ?thesis by (auto simp: generate_opex_def)
qed

lemma plateau_growth_closed:
  fixes xs :: "real list"
  assumes "\<forall>i<length xs. xs ! i = (if i < 10 then start else xs ! (i - 1) * (1 + g))"
  shows "i < length xs \<Longrightarrow> xs ! i = start * (1 + g) ^ (i - 9)"
proof (induction i)
  case 0
  with assms show ?case by simp
next
  case (Suc i)
  show ?case
  proof (cases "Suc i < 10")
    case True
    with assms Suc.prems show ?thesis by simp
  next
    case False
    then have "Suc i - 9 = Suc (i - 9)" by simp
    moreover have "xs ! Suc i = xs ! i * (1 + g)" using assms Suc.prems False by simp
    moreover have "xs ! i = start * (1 + g) ^ (i - 9)" using Suc by simp
    ultimately show ?thesis by simp
  qed
qed

text \<open>
  C5. For \<open>years \<ge> 1\<close>, \<open>generate_opex\<close> returns \<open>years\<close> values; those of years 1 to 10
  (indices below 10) equal \<open>start\<close>, and each later one is its predecessor times
  \<open>1 + long_growth\<close>, so that the value of year \<open>10 + k\<close> is \<open>start * (1 + long_growth) ^ k\<close>.
  In particular ten years at 910000 are constant whatever the growth, and the eleventh
  value at growth 0.02 is \<open>910000 * 1.02\<close>.
\<close>

theorem generate_opex_plateau_then_growth:
  "1 \<le> years \<Longrightarrow>
   (\<exists>xs. generate_opex years start long_growth = Inr xs \<and> int (length xs) = years
      \<and> (\<forall>i<length xs. xs ! i = (if i < 10 then start else xs ! (i - 1) * (1 + long_growth)))
      \<and> (\<forall>i<length xs. 10 \<le> i \<longrightarrow> xs ! i = start * (1 + long_growth) ^ (i - 9)))
   \<and> generate_opex 10 910000 long_growth = Inr (replicate 10 910000)
   \<and> (\<exists>ys. generate_opex 11 910000 (2 / 100) = Inr ys \<and> ys ! 10 = 910000 * (102 / 100))"
proof -
  assume y: "1 \<le> years"
  obtain xs where xs: "generate_opex years start long_growth = Inr xs" "length xs = nat years"
    "\<forall>i<length xs. xs ! i = (if i < 10 then start else xs ! (i - 1) * (1 + long_growth))"
    using generate_opex_shape [of years start long_growth] by blast
  have "\<forall>i<length xs. 10 \<le> i \<longrightarrow> xs ! i = start * (1 + long_growth) ^ (i - 9)"
    using plateau_growth_closed [OF xs(3)] by blast
  moreover have "int (length xs) = years" using xs(2) y by simp
  ultimately have a: "\<exists>xs. generate_opex years start long_growth = Inr xs \<and> int (length xs) = years
      \<and> (\<forall>i<length xs. xs ! i = (if i < 10 then start else xs ! (i - 1) * (1 + long_growth)))
      \<and> (\<forall>i<length xs. 10 \<le> i \<longrightarrow> xs ! i = start * (1 + long_growth) ^ (i - 9))"
    using xs(1,3) by blast
  have b: "generate_opex 10 910000 long_growth = Inr (replicate 10 910000)"
    by (simp add: generate_opex_def upto_rec1 eval_nat_numeral)
  have c: "\<exists>ys. generate_opex 11 910000 (2 / 100) = Inr ys \<and> ys ! 10 = 910000 * (102 / 100)"
    by (simp add: generate_opex_def upto_rec1 py_index_def eval_nat_numeral)
  from a b c show ?thesis by blast
qed

theorem generate_opex_plateau_then_growth_witness:
  "(1 :: int) \<le> 12
   \<and> generate_opex 12 100 (1 / 10) = Inr [100, 100, 100, 100, 100, 100, 100, 100, 100, 100, 110, 121]"
proof -
  have h: "(1 :: int) \<le> 12" by simp
  from generate_opex_plateau_then_growth [OF h, of 100 "1 / 10"]
  obtain xs where xs: "generate_opex 12 100 (1 / 10) = Inr xs" "int (length xs) = 12"
    "\<forall>i<length xs. xs ! i = (if i < 10 then 100 else xs ! (i - 1) * (1 + 1 / 10))"
    by blast
  have "generate_opex 12 100 (1 / 10) = Inr [100, 100, 100, 100, 100, 100, 100, 100, 100, 100, 110, 121]"
    by (simp add: generate_opex_def upto_rec1 py_index_def)
  with h xs show ?thesis by simp
qed

subsection \<open>The ledger\<close>

lemma ledger_row_fields:
  "year (ledger_row y rv ox t pc) = y"
  "revenue (ledger_row y rv ox t pc) = rv"
  "opex (ledger_row y rv ox t pc) = ox"
  "polymer_exp (ledger_row y rv ox t pc) = (if y = 1 then pc else 0)"
  "equipment (ledger_row y rv ox t pc) = (if y mod 10 = 0 \<and> 1 < y then 30000 else 0)"
  "taxable_income (ledger_row y rv ox t pc)
     = rv - ox - (if y = 1 then pc else 0) - (if y mod 10 = 0 \<and> 1 < y then 30000 else 0)"
  "tax (ledger_row y rv ox t pc) = max (taxable_income (ledger_row y rv ox t pc)) 0 * t"
  "net_profit (ledger_row y rv ox t pc)
     = taxable_income (ledger_row y rv ox t pc) - tax (ledger_row y rv ox t pc)"
  "cash_flow (ledger_row y rv ox t pc) = net_profit (ledger_row y rv ox t pc)"
  by (simp_all add: ledger_row_def Let_def EQUIPMENT_REPLACEMENT_COST_def)

lemma cashflow_loop_years:
  "cashflow_loop ys rvs oxs t pc (rws, cfs, s) = Inr (rws', cfs', s') \<Longrightarrow>
   map year rws' = map year rws @ ys"
proof (induction ys arbitrary: rws cfs s)
  case Nil
  then show ?case by simp
next
  case (Cons y ys)
  from Cons.prems obtain rv ox where
    "cashflow_loop ys rvs oxs t pc
       (rws @ [ledger_row y rv ox t pc], cfs @ [cash_flow (ledger_row y rv ox t pc)],
        s + cash_flow (ledger_row y rv ox t pc)) = Inr (rws', cfs', s')"
    by (auto simp: Let_def split: sum.splits)
  from Cons.IH [OF this] show ?case by (simp add: ledger_row_fields(1))
qed

lemma cashflow_loop_rows:
  assumes "\<And>y rv ox. P (ledger_row y rv ox t pc)"
  shows "cashflow_loop ys rvs oxs t pc (rws, cfs, s) = Inr (rws', cfs', s') \<Longrightarrow>
   (\<forall>row \<in> set rws. P row) \<Longrightarrow> (\<forall>row \<in> set rws'. P row)"
proof (induction ys arbitrary: rws cfs s)
  case Nil
  then show ?case by simp
next
  case (Cons y ys)
  from Cons.prems(1) obtain rv ox where
    run: "cashflow_loop ys rvs oxs t pc
       (rws @ [ledger_row y rv ox t pc], cfs @ [cash_flow (ledger_row y rv ox t pc)],
        s + cash_flow (ledger_row y rv ox t pc)) = Inr (rws', cfs', s')"
    by (auto simp: Let_def split: sum.splits)
  have "\<forall>row \<in> set (rws @ [ledger_row y rv ox t pc]). P row"
    using Cons.prems(2) assms by simp
  with Cons.IH [OF run] show ?case by blast
qed

lemma cashflow_loop_error:
  "cashflow_loop ys rvs oxs t pc st = Inl e \<Longrightarrow> e = IndexError"
proof (induction ys arbitrary: st)
  case Nil
  then show ?case by simp
next
  case (Cons y ys st)
  obtain rws cfs s where st: "st = (rws, cfs, s)" by (rule prod_cases3)
  from Cons.prems Cons.IH show ?case
    unfolding st
    by (auto simp: Let_def py_index_def split: sum.splits if_splits)
qed

lemma npv_loop_error: "npv_loop t cfs rate tot = Inl e \<Longrightarrow> e = ZeroDivisionError"
  by (induction cfs arbitrary: t tot) (auto simp: py_truediv_def split: if_splits)

lemma cashflow_loop_succeeds:
  "\<forall>y \<in> set ys. 1 \<le> y \<and> y \<le> int (length rvs) \<and> y \<le> int (length oxs) \<Longrightarrow>
   \<exists>st'. cashflow_loop ys rvs oxs t pc st = Inr st'"
proof (induction ys arbitrary: st)
  case Nil
  have "cashflow_loop [] rvs oxs t pc st = Inr st" by simp
  then show ?case by (rule exI)
next
  case (Cons y ys st)
  obtain rws cfs s where st: "st = (rws, cfs, s)" by (rule prod_cases3)
  from Cons.prems have y: "1 \<le> y" "y \<le> int (length rvs)" "y \<le> int (length oxs)" by simp_all
  then have ix: "py_index rvs (y - 1) = Inr (rvs ! nat (y - 1))"
    "py_index oxs (y - 1) = Inr (oxs ! nat (y - 1))"
    by (simp_all add: py_index_def)
  from Cons.prems have "\<forall>y \<in> set ys. 1 \<le> y \<and> y \<le> int (length rvs) \<and> y \<le> int (length oxs)"
    by simp
  from Cons.IH [OF this] show ?case unfolding st by (simp add: ix Let_def)
qed

lemma polymer_cost_cases:
  "polymer_cost k =
     (case map_of POLYMERS k of None \<Rightarrow> Inl KeyError
      | Some d \<Rightarrow> Inr (conc_kg_per_m3 d * of_int (inj_volume_m3 d) * price_per_kg d))"
  by (simp add: polymer_cost_def Let_def split: option.splits)

lemma build_unfold:
  "build_cashflow_for_polymer k years rvs oxs t d = Inr res \<Longrightarrow>
   \<exists>pc cfs s p. polymer_cost k = Inr pc
     \<and> cashflow_loop [1..years] rvs oxs t pc ([], [], 0) = Inr (rows res, cfs, s)
     \<and> npv cfs d = Inr p"
  by (auto simp: build_cashflow_for_polymer_def split: sum.splits prod.splits)

lemma build_succeeds:
  assumes k: "map_of POLYMERS k = Some data"
    and len: "years \<le> int (length rvs)" "years \<le> int (length oxs)"
    and rate: "d \<noteq> - 1 \<or> years \<le> 0"
  shows "\<exists>res. build_cashflow_for_polymer k years rvs oxs t d = Inr res"
proof -
  from k obtain pc where pc: "polymer_cost k = Inr pc" by (simp add: polymer_cost_cases)
  have "\<forall>y \<in> set [1..years]. 1 \<le> y \<and> y \<le> int (length rvs) \<and> y \<le> int (length oxs)"
    using len by simp
  from cashflow_loop_succeeds [OF this, of t pc "([], [], 0)"] obtain rws cfs s where
    run: "cashflow_loop [1..years] rvs oxs t pc ([], [], 0) = Inr (rws, cfs, s)"
    by (metis prod_cases3)
  have "\<exists>p. npv cfs d = Inr p"
  proof (cases "d = - 1")
    case False
    then have "1 + d \<noteq> 0" by simp
    from npv_closed [OF this] show ?thesis by blast
  next
    case True
    with rate have "[1..years] = []" by simp
    with run have "cfs = []" by simp
    then show ?thesis by (simp add: npv_def)
  qed
  then obtain p where "npv cfs d = Inr p" by blast
  with pc run show ?thesis by (simp add: build_cashflow_for_polymer_def)
qed

text \<open>
  C1. Every row of the ledger that \<open>build_cashflow_for_polymer\<close> returns (one row per year
  \<open>1..years\<close>) satisfies: taxable income = revenue - opex - polymer expense - equipment
  expense; tax = max(taxable income, 0) * tax_rate; net profit = taxable income - tax;
  cash flow = net profit.
\<close>

theorem ledger_row_invariant:
  "build_cashflow_for_polymer poly_key years revenues opex_list tax_rate discount_rate = Inr res
   \<Longrightarrow> map year (rows res) = [1..years]
     \<and> (\<forall>row \<in> set (rows res).
           taxable_income row = revenue row - opex row - polymer_exp row - equipment row
         \<and> tax row = max (taxable_income row) 0 * tax_rate
         \<and> net_profit row = taxable_income row - tax row
         \<and> cash_flow row = net_profit row)"
proof -
  assume "build_cashflow_for_polymer poly_key years revenues opex_list tax_rate discount_rate
            = Inr res"
  from build_unfold [OF this] obtain pc cfs s where
    run: "cashflow_loop [1..years] revenues opex_list tax_rate pc ([], [], 0)
            = Inr (rows res, cfs, s)"
    by blast
  let ?P = "\<lambda>row. taxable_income row = revenue row - opex row - polymer_exp row - equipment row
         \<and> tax row = max (taxable_income row) 0 * tax_rate
         \<and> net_profit row = taxable_income row - tax row
         \<and> cash_flow row = net_profit row"
  have body: "?P (ledger_row y rv ox tax_rate pc)" for y rv ox
    by (simp add: ledger_row_fields)
  have "\<forall>row \<in> set (rows res). ?P row"
    by (rule cashflow_loop_rows [where P = ?P, OF body run]) simp
  moreover have "map year (rows res) = [1..years]"
    using cashflow_loop_years [OF run] by simp
  ultimately show ?thesis by blast
qed

theorem ledger_row_invariant_witness:
  "build_cashflow_for_polymer ''hpam'' 2 [204000, 300000] [50000, 60000] (1 / 10) 0
     = Inr \<lparr>rows =
         [\<lparr>year = 1, revenue = 204000, opex = 50000, polymer_exp = 104000, equipment = 0,
           taxable_income = 50000, tax = 5000, net_profit = 45000, cash_flow = 45000\<rparr>,
          \<lparr>year = 2, revenue = 300000, opex = 60000, polymer_exp = 0, equipment = 0,
           taxable_income = 240000, tax = 24000, net_profit = 216000, cash_flow = 216000\<rparr>],
        project_npv = 261000, sum_cf = 261000, cashflows = [45000, 216000]\<rparr>
   \<and> (50000 :: real) = 204000 - 50000 - 104000 - 0
   \<and> (5000 :: real) = max 50000 0 * (1 / 10)
   \<and> (45000 :: real) = 50000 - 5000"
proof -
  let ?res = "\<lparr>rows =
         [\<lparr>year = 1, revenue = 204000, opex = 50000, polymer_exp = 104000, equipment = 0,
           taxable_income = 50000, tax = 5000, net_profit = 45000, cash_flow = 45000\<rparr>,
          \<lparr>year = 2, revenue = 300000, opex = 60000, polymer_exp = 0, equipment = 0,
           taxable_income = 240000, tax = 24000, net_profit = 216000, cash_flow = 216000\<rparr>],
        project_npv = 261000, sum_cf = 261000, cashflows = [45000, 216000 :: real]\<rparr>"
  have run: "build_cashflow_for_polymer ''hpam'' 2 [204000, 300000] [50000, 60000] (1 / 10) 0
     = Inr ?res"
    by (simp add: build_cashflow_for_polymer_def polymer_cost_def POLYMERS_def upto_rec1
        py_index_def ledger_row_def EQUIPMENT_REPLACEMENT_COST_def Let_def npv_def
        py_truediv_def)
  from ledger_row_invariant [OF run] have
    "\<forall>row \<in> set (rows ?res).
           taxable_income row = revenue row - opex row - polymer_exp row - equipment row
         \<and> tax row = max (taxable_income row) 0 * (1 / 10)
         \<and> net_profit row = taxable_income row - tax row
         \<and> cash_flow row = net_profit row"
    by blast
  then have "(50000 :: real) = 204000 - 50000 - 104000 - 0
   \<and> (5000 :: real) = max 50000 0 * (1 / 10)
   \<and> (45000 :: real) = 50000 - 5000"
    by simp
  with run show ?thesis by blast
qed

text \<open>
  C3. In the ledger that \<open>build_cashflow_for_polymer\<close> returns, the polymer expense is the
  catalog's purchase cost (concentration * volume * unit price) in year 1 and 0 in every
  other year, and the equipment expense is 30000 in the years that are multiples of 10 and
  greater than 1 and 0 in every other year. In the catalog the purchase cost is 104000 for
  \<open>hpam\<close>, 144000 for \<open>xanthan\<close> and 133000 for \<open>atbs\<close>.
\<close>

theorem ledger_polymer_and_equipment_expense:
  "build_cashflow_for_polymer poly_key years revenues opex_list tax_rate discount_rate = Inr res
   \<Longrightarrow> (\<exists>data. map_of POLYMERS poly_key = Some data
          \<and> polymer_cost poly_key
              = Inr (conc_kg_per_m3 data * of_int (inj_volume_m3 data) * price_per_kg data)
          \<and> map year (rows res) = [1..years]
          \<and> (\<forall>row \<in> set (rows res).
                 polymer_exp row
                   = (if year row = 1
                      then conc_kg_per_m3 data * of_int (inj_volume_m3 data) * price_per_kg data
                      else 0)
               \<and> equipment row = (if year row mod 10 = 0 \<and> 1 < year row then 30000 else 0)))
     \<and> polymer_cost ''hpam'' = Inr 104000
     \<and> polymer_cost ''xanthan'' = Inr 144000
     \<and> polymer_cost ''atbs'' = Inr 133000"
proof -
  assume b: "build_cashflow_for_polymer poly_key years revenues opex_list tax_rate discount_rate
            = Inr res"
  from build_unfold [OF b] obtain pc cfs s where
    pc: "polymer_cost poly_key = Inr pc"
    and run: "cashflow_loop [1..years] revenues opex_list tax_rate pc ([], [], 0)
            = Inr (rows res, cfs, s)"
    by blast
  from pc obtain data where data: "map_of POLYMERS poly_key = Some data"
    and pc_eq: "pc = conc_kg_per_m3 data * of_int (inj_volume_m3 data) * price_per_kg data"
    by (auto simp: polymer_cost_cases split: option.splits)
  let ?P = "\<lambda>row. polymer_exp row = (if year row = 1 then pc else 0)
               \<and> equipment row = (if year row mod 10 = 0 \<and> 1 < year row then 30000 else 0)"
  have body: "?P (ledger_row y rv ox tax_rate pc)" for y rv ox
    by (simp add: ledger_row_fields)
  have rows: "\<forall>row \<in> set (rows res). ?P row"
    by (rule cashflow_loop_rows [where P = ?P, OF body run]) simp
  have yrs: "map year (rows res) = [1..years]"
    using cashflow_loop_years [OF run] by simp
  have cat: "polymer_cost ''hpam'' = Inr 104000" "polymer_cost ''xanthan'' = Inr 144000"
    "polymer_cost ''atbs'' = Inr 133000"
    by (simp_all add: polymer_cost_def POLYMERS_def)
  from data pc pc_eq rows yrs cat show ?thesis by auto
qed

theorem ledger_polymer_and_equipment_expense_witness:
  "\<exists>res. build_cashflow_for_polymer ''xanthan'' 10 (replicate 10 500000) (replicate 10 100000)
            (1 / 10) (1 / 10) = Inr res
     \<and> map year (rows res) = [1, 2, 3, 4, 5, 6, 7, 8, 9, 10]
     \<and> map polymer_exp (rows res) = [144000, 0, 0, 0, 0, 0, 0, 0, 0, 0]
     \<and> map equipment (rows res) = [0, 0, 0, 0, 0, 0, 0, 0, 0, 30000]"
proof -
  have k: "map_of POLYMERS ''xanthan''
     = Some \<lparr>name = ''Xanthan gum (oilfield grade)'', price_per_kg = 24 / 10,
             conc_kg_per_m3 = 6 / 10, inj_volume_m3 = 100000\<rparr>"
    by (simp add: POLYMERS_def)
  from build_succeeds [OF k, of 10 "replicate 10 500000" "replicate 10 100000" "1 / 10" "1 / 10"]
  obtain res where run: "build_cashflow_for_polymer ''xanthan'' 10 (replicate 10 500000)
      (replicate 10 100000) (1 / 10) (1 / 10) = Inr res"
    by auto
  from ledger_polymer_and_equipment_expense [OF run] k have
    yrs: "map year (rows res) = [1..10]"
    and rws: "\<forall>row \<in> set (rows res).
                 polymer_exp row = (if year row = 1 then 144000 else 0)
               \<and> equipment row = (if year row mod 10 = 0 \<and> 1 < year row then 30000 else 0)"
    by auto
  have "map polymer_exp (rows res) = map (\<lambda>y. if y = 1 then 144000 else 0) (map year (rows res))"
    using rws by simp
  then have pe: "map polymer_exp (rows res) = [144000, 0, 0, 0, 0, 0, 0, 0, 0, 0]"
    unfolding yrs by (simp add: upto_rec1)
  have "map equipment (rows res)
          = map (\<lambda>y. if y mod 10 = 0 \<and> 1 < y then 30000 else 0) (map year (rows res))"
    using rws by simp
  then have eq: "map equipment (rows res) = [0, 0, 0, 0, 0, 0, 0, 0, 0, 30000]"
    unfolding yrs by (simp add: upto_rec1)
  have ys: "map year (rows res) = [1, 2, 3, 4, 5, 6, 7, 8, 9, 10]"
    unfolding yrs by (simp add: upto_rec1)
  from run ys pe eq show ?thesis by (intro exI [of _ res] conjI)
qed

text \<open>
  C7. The cost lookup fails exactly when the key is absent from the catalog, and then with
  \<^verbatim>\<open>KeyError\<close> (the unknown-polymer-key error); for a key of the catalog it returns
  the cost. \<open>build_cashflow_for_polymer\<close>, which looks the cost up first, fails with that
  error exactly when the key is absent.
\<close>

theorem polymer_cost_key_error:
  "(polymer_cost poly_key = Inl e \<longleftrightarrow> e = KeyError \<and> poly_key \<notin> fst ` set POLYMERS)
   \<and> (poly_key \<in> fst ` set POLYMERS \<longrightarrow>
        (\<exists>data. map_of POLYMERS poly_key = Some data
           \<and> polymer_cost poly_key
               = Inr (conc_kg_per_m3 data * of_int (inj_volume_m3 data) * price_per_kg data)))
   \<and> (build_cashflow_for_polymer poly_key years revenues opex_list tax_rate discount_rate
         = Inl KeyError \<longleftrightarrow> poly_key \<notin> fst ` set POLYMERS)"
proof -
  have dom: "(map_of POLYMERS poly_key = None) = (poly_key \<notin> fst ` set POLYMERS)"
    by (rule map_of_eq_None_iff)
  have a: "polymer_cost poly_key = Inl e \<longleftrightarrow> e = KeyError \<and> poly_key \<notin> fst ` set POLYMERS"
    unfolding dom [symmetric] by (auto simp: polymer_cost_cases split: option.splits)
  have b: "poly_key \<in> fst ` set POLYMERS \<longrightarrow>
        (\<exists>data. map_of POLYMERS poly_key = Some data
           \<and> polymer_cost poly_key
               = Inr (conc_kg_per_m3 data * of_int (inj_volume_m3 data) * price_per_kg data))"
    using dom by (auto simp: polymer_cost_cases split: option.splits)
  have c: "build_cashflow_for_polymer poly_key years revenues opex_list tax_rate discount_rate
         = Inl KeyError \<longleftrightarrow> poly_key \<notin> fst ` set POLYMERS"
  proof
    assume f: "build_cashflow_for_polymer poly_key years revenues opex_list tax_rate discount_rate
         = Inl KeyError"
    show "poly_key \<notin> fst ` set POLYMERS"
    proof (cases "polymer_cost poly_key")
      case (Inl e')
      with a [of ] show ?thesis
        using dom by (auto simp: polymer_cost_cases split: option.splits)
    next
      case (Inr pc)
      show ?thesis
      proof (cases "cashflow_loop [1..years] revenues opex_list tax_rate pc ([], [], 0)")
        case (Inl e')
        with f Inr have "e' = KeyError" by (simp add: build_cashflow_for_polymer_def)
        moreover from Inl have "e' = IndexError" by (rule cashflow_loop_error)
        ultimately show ?thesis by simp
      next
        case (Inr st)
        obtain rws cfs s where st: "st = (rws, cfs, s)" by (rule prod_cases3)
        from f \<open>polymer_cost poly_key = Inr pc\<close> Inr st
        have "npv cfs discount_rate = Inl KeyError"
          by (simp add: build_cashflow_for_polymer_def split: sum.splits)
        then have "KeyError = ZeroDivisionError"
          unfolding npv_def by (rule npv_loop_error)
        then show ?thesis by simp
      qed
    qed
  next
    assume "poly_key \<notin> fst ` set POLYMERS"
    then have "polymer_cost poly_key = Inl KeyError"
      using dom by (simp add: polymer_cost_cases)
    then show "build_cashflow_for_polymer poly_key years revenues opex_list tax_rate
        discount_rate = Inl KeyError"
      by (simp add: build_cashflow_for_polymer_def)
  qed
  from a b c show ?thesis by blast
qed

theorem polymer_cost_key_error_witness:
  "polymer_cost ''pam'' = Inl KeyError
   \<and> build_cashflow_for_polymer ''pam'' 1 [100] [10] 0 0 = Inl KeyError
   \<and> polymer_cost ''atbs'' = Inr 133000
   \<and> build_cashflow_for_polymer ''atbs'' 1 [100] [10] 0 0 \<noteq> Inl KeyError"
proof -
  have absent: "''pam'' \<notin> fst ` set POLYMERS" by (simp add: POLYMERS_def)
  have present: "''atbs'' \<in> fst ` set POLYMERS" by (simp add: POLYMERS_def)
  have k: "map_of POLYMERS ''atbs''
     = Some \<lparr>name = ''ATBS-modified polyacrylamide'', price_per_kg = 19 / 10,
             conc_kg_per_m3 = 7 / 10, inj_volume_m3 = 100000\<rparr>"
    by (simp add: POLYMERS_def)
  from polymer_cost_key_error [of "''pam''" KeyError 1 "[100]" "[10]" 0 0] absent
  have a: "polymer_cost ''pam'' = Inl KeyError"
    "build_cashflow_for_polymer ''pam'' 1 [100] [10] 0 0 = Inl KeyError"
    by simp_all
  from polymer_cost_key_error [of "''atbs''" KeyError 1 "[100]" "[10]" 0 0] present k
  have b: "polymer_cost ''atbs'' = Inr 133000"
    "build_cashflow_for_polymer ''atbs'' 1 [100] [10] 0 0 \<noteq> Inl KeyError"
    by auto
  from a b show ?thesis by blast
qed

subsection \<open>Powers of two\<close>

lemma pow2_powr: "pow2 e = 2 powr (of_int e)"
  by (simp add: pow2_def powr_int)

lemma pow2_pos [simp]: "0 < pow2 e"
  by (simp add: pow2_powr)

lemma pow2_nz [simp]: "pow2 e \<noteq> 0"
  by (simp add: pow2_powr)

lemma pow2_abs [simp]: "\<bar>pow2 e\<bar> = pow2 e"
  by (simp add: pow2_powr)

lemma pow2_add: "pow2 (a + b) = pow2 a * pow2 b"
  by (simp add: pow2_powr powr_add)

lemma pow2_mono: "a \<le> b \<Longrightarrow> pow2 a \<le> pow2 b"
  by (simp add: pow2_powr)

lemma pow2_nat: "pow2 (int n) = 2 ^ n"
  by (simp add: pow2_def)


lemma pow2_int: "0 \<le> d \<Longrightarrow> pow2 d = of_int (2 ^ nat d)"
  by (simp add: pow2_def)

subsection \<open>Rounding to the nearest integer, ties to even\<close>

lemma rhe_of_int [simp]: "round_half_even (of_int n) = n"
  by (simp add: round_half_even_def)





subsection \<open>Rounding to binary64\<close>

lemma floor_log2: "0 < x \<Longrightarrow> pow2 k \<le> x \<Longrightarrow> x < pow2 (k + 1) \<Longrightarrow> \<lfloor>log 2 x\<rfloor> = k"
  by (simp add: floor_log_eq_powr_iff pow2_powr)

lemma floor_log2_bounds:
  "0 < x \<Longrightarrow> pow2 \<lfloor>log 2 x\<rfloor> \<le> x \<and> x < pow2 (\<lfloor>log 2 x\<rfloor> + 1)"
  using floor_log_eq_powr_iff [of x 2 "\<lfloor>log 2 x\<rfloor>"] by (simp add: pow2_powr)

lemma round64_unfold:
  "x \<noteq> 0 \<Longrightarrow>
   round64 x = classify (of_int (round_half_even (x / pow2 (max \<lfloor>log 2 \<bar>x\<bar>\<rfloor> (- 1022) - 52)))
                          * pow2 (max \<lfloor>log 2 \<bar>x\<bar>\<rfloor> (- 1022) - 52))"
  by (simp add: round64_def classify_def Let_def)

lemma round64_eval:
  assumes "x \<noteq> 0" "pow2 k \<le> \<bar>x\<bar>" "\<bar>x\<bar> < pow2 (k + 1)" "e = max k (- 1022) - 52"
  shows "round64 x = classify (of_int (round_half_even (x / pow2 e)) * pow2 e)"
proof -
  from assms have "\<lfloor>log 2 \<bar>x\<bar>\<rfloor> = k" by (intro floor_log2) simp_all
  with assms show ?thesis by (simp add: round64_unfold)
qed

lemma round64_eval_tiny:
  assumes "x \<noteq> 0" "\<bar>x\<bar> < pow2 (- 1022)"
  shows "round64 x = classify (of_int (round_half_even (x / pow2 (- 1074))) * pow2 (- 1074))"
proof -
  from assms have pos: "0 < \<bar>x\<bar>" by simp
  have "\<lfloor>log 2 \<bar>x\<bar>\<rfloor> < - 1022"
  proof (rule ccontr)
    assume "\<not> \<lfloor>log 2 \<bar>x\<bar>\<rfloor> < - 1022"
    then have "pow2 (- 1022) \<le> pow2 \<lfloor>log 2 \<bar>x\<bar>\<rfloor>" by (intro pow2_mono) simp
    with floor_log2_bounds [OF pos] assms(2) show False by simp
  qed
  then have E: "max \<lfloor>log 2 \<bar>x\<bar>\<rfloor> (- 1022) - 52 = - 1074" by simp
  show ?thesis by (simp only: round64_unfold [OF assms(1)] E)
qed

text \<open>Every \<open>m * 2 ^ e\<close> with a 53-bit \<open>m\<close> and an exponent in range is a binary64 value.\<close>

lemma round64_exact:
  assumes m: "\<bar>m\<bar> < 2 ^ 53" and e: "- 1074 \<le> e"
    and rng: "\<bar>of_int m * pow2 e\<bar> < 2 ^ 1024"
  shows "round64 (of_int m * pow2 e) = Fin (of_int m * pow2 e)"
proof (cases "m = 0")
  case True
  then show ?thesis by (simp add: round64_def)
next
  case False
  let ?x = "of_int m * pow2 e :: real"
  have x0: "?x \<noteq> 0" using False by simp
  then have pos: "0 < \<bar>?x\<bar>" by simp
  let ?k = "\<lfloor>log 2 \<bar>?x\<bar>\<rfloor>"
  let ?E = "max ?k (- 1022) - 52"
  have "pow2 ?k \<le> \<bar>?x\<bar>" using floor_log2_bounds [OF pos] by simp
  also have "\<bar>?x\<bar> = of_int \<bar>m\<bar> * pow2 e" by (simp add: abs_mult)
  also have "\<dots> < of_int (2 ^ 53) * pow2 e"
    using m by (intro mult_strict_right_mono) (simp_all del: of_int_power of_int_numeral)
  also have "\<dots> = pow2 (53 + e)"
  proof -
    have "pow2 53 = 2 ^ 53" by (simp add: pow2_def)
    then show ?thesis by (simp add: pow2_add)
  qed
  finally have "pow2 ?k < pow2 (53 + e)" .
  then have "?k < 53 + e" using pow2_mono [of "53 + e" ?k] by (cases "?k < 53 + e") auto
  define E where "E = ?E"
  with e \<open>?k < 53 + e\<close> have Ee: "E \<le> e" by simp
  then have d: "pow2 (e - E) = of_int (2 ^ nat (e - E))" by (intro pow2_int) simp
  have "pow2 e = pow2 (e - E) * pow2 E" using pow2_add [of "e - E" E] by simp
  then have "?x / pow2 E = of_int m * pow2 (e - E)" by simp
  also have "\<dots> = of_int (m * 2 ^ nat (e - E))" by (simp add: d)
  finally have q: "?x / pow2 E = of_int (m * 2 ^ nat (e - E))" .
  have "of_int (round_half_even (?x / pow2 E)) * pow2 E = ?x / pow2 E * pow2 E"
    by (simp only: q rhe_of_int)
  also have "\<dots> = ?x" by simp
  finally have "round64 ?x = classify ?x"
    using round64_unfold [OF x0] by (simp only: E_def)
  moreover have "classify ?x = Fin ?x" using rng by (auto simp: classify_def)
  ultimately show ?thesis by simp
qed

lemma round64_int: "\<bar>n\<bar> < 2 ^ 53 \<Longrightarrow> round64 (of_int n) = Fin (of_int n)"
proof -
  assume n: "\<bar>n\<bar> < 2 ^ 53"
  have "\<bar>of_int n :: real\<bar> < 2 ^ 53" using n by (metis of_int_abs of_int_less_numeral_power_cancel_iff)
  also have "(2 :: real) ^ 53 < 2 ^ 1024" by simp
  finally have "\<bar>of_int n * pow2 0\<bar> < (2 :: real) ^ 1024" by (simp add: pow2_def)
  from round64_exact [OF n _ this] show ?thesis by (simp add: pow2_def)
qed

lemma pow2_nonneg [simp]: "0 \<le> pow2 e"
  using pow2_pos [of e] by (rule less_imp_le)












lemma round64_zero [simp]: "round64 0 = Fin 0"
  by (simp add: round64_def)



lemma round64_not_nan [simp]: "round64 x \<noteq> NaN"
  by (simp add: round64_def classify_def Let_def)

subsection \<open>Evaluating exact results\<close>

lemma round64_dyadic:
  "x = of_int m * pow2 e \<Longrightarrow> \<bar>m\<bar> < 2 ^ 53 \<Longrightarrow> - 1074 \<le> e \<Longrightarrow> \<bar>x\<bar> < 2 ^ 1024
   \<Longrightarrow> round64 x = Fin x"
  using round64_exact [of m e] by simp

lemma round64_numeral [simp]:
  "(numeral n :: int) < 2 ^ 53 \<Longrightarrow> round64 (numeral n) = Fin (numeral n)"
  using round64_int [of "numeral n"] by simp

lemma round64_neg_numeral [simp]:
  "(numeral n :: int) < 2 ^ 53 \<Longrightarrow> round64 (- numeral n) = Fin (- numeral n)"
  using round64_int [of "- numeral n"] by simp

lemma round64_one [simp]: "round64 1 = Fin 1"
  using round64_int [of 1] by simp

lemma round64_neg_one [simp]: "round64 (- 1) = Fin (- 1)"
  using round64_int [of "- 1"] by simp

subsection \<open>The loop as a fold\<close>


lemma npv64_loop_returns:
  "(\<exists>v. npv64_loop t cfs rate tot = Inr v)
     \<longleftrightarrow> (\<forall>i<length cfs. \<exists>q. discount_term (cfs ! i) rate (t + i) = Inr q)"
proof (induction cfs arbitrary: t tot)
  case Nil
  show ?case by simp
next
  case (Cons cf cfs)
  show ?case
  proof (cases "discount_term cf rate t")
    case (Inl e)
    then have "\<not> (\<forall>i<length (cf # cfs). \<exists>q. discount_term ((cf # cfs) ! i) rate (t + i) = Inr q)"
      by (auto intro: exI [of _ 0])
    with Inl show ?thesis by simp
  next
    case (Inr q)
    have "(\<forall>i<length (cf # cfs). \<exists>q. discount_term ((cf # cfs) ! i) rate (t + i) = Inr q)
        \<longleftrightarrow> (\<forall>i<length cfs. \<exists>q. discount_term (cfs ! i) rate (Suc t + i) = Inr q)"
      (is "?L \<longleftrightarrow> ?R")
    proof
      assume l: ?L
      show ?R
      proof (intro allI impI)
        fix i assume "i < length cfs"
        with l [rule_format, of "Suc i"] show "\<exists>q. discount_term (cfs ! i) rate (Suc t + i) = Inr q"
          by simp
      qed
    next
      assume r: ?R
      show ?L
      proof (intro allI impI)
        fix i assume "i < length (cf # cfs)"
        then show "\<exists>q. discount_term ((cf # cfs) ! i) rate (t + i) = Inr q"
          using Inr r by (cases i) simp_all
      qed
    qed
    with Cons.IH [of "Suc t" "fadd tot q"] Inr show ?thesis by simp
  qed
qed

lemma discount_term_returns:
  "(\<exists>q. discount_term cf rate t = Inr q)
     \<longleftrightarrow> (\<exists>p. fpow (fadd (Fin 1) rate) t = Inr p \<and> p \<noteq> Fin 0)"
  by (auto simp: discount_term_def fdiv_def split: sum.splits)

lemma fpow_error: "fpow b t = Inl e \<Longrightarrow> e = OverflowError"
  by (cases "(b, t)" rule: fpow.cases) (auto split: pyfloat.splits)

lemma discount_term_error:
  "discount_term cf rate t = Inl e \<Longrightarrow> e = ZeroDivisionError \<or> e = OverflowError"
  by (auto simp: discount_term_def fdiv_def split: sum.splits if_splits dest: fpow_error)

lemma npv64_loop_error:
  "npv64_loop t cfs rate tot = Inl e \<Longrightarrow> e = ZeroDivisionError \<or> e = OverflowError"
proof (induction cfs arbitrary: t tot)
  case Nil
  then show ?case by simp
next
  case (Cons cf cfs)
  then show ?case
    by (cases "discount_term cf rate t") (auto dest: discount_term_error)
qed

lemmas round64_eval_simps = pow2_def classify_def round_half_even_def Let_def

lemma rd_1_plus_2p600: "round64 (1 + 2 ^ 600) = Fin (2 ^ 600)"
  by (subst round64_eval [where k = 600 and e = 548]) (simp_all add: round64_eval_simps)

lemma rd_2p600: "round64 (2 ^ 600) = Fin (2 ^ 600)"
  by (rule round64_dyadic [where m = 1 and e = 600]) (simp_all add: pow2_def)

lemma rd_2m600: "round64 (1 / 2 ^ 600) = Fin (1 / 2 ^ 600)"
  by (rule round64_dyadic [where m = 1 and e = "- 600"]) (simp_all add: pow2_def)

lemma rd_2p1200: "round64 (2 ^ 1200) = PosInf"
  by (subst round64_eval [where k = 1200 and e = 1148]) (simp_all add: round64_eval_simps)

lemma npv64_overflow_eval:
  "npv64 [Fin 1, Fin 1] (Fin (2 ^ 600)) = Inl OverflowError"
proof -
  define B :: real where "B = 2 ^ 600"
  have r1: "round64 (1 + B) = Fin B" unfolding B_def by (rule rd_1_plus_2p600)
  have r2: "round64 B = Fin B" unfolding B_def by (rule rd_2p600)
  have r3: "round64 (1 / B) = Fin (1 / B)" unfolding B_def by (rule rd_2m600)
  have "B * B = 2 ^ 1200" unfolding B_def by (simp flip: power_add)
  then have r4: "round64 (B * B) = PosInf" by (simp only: rd_2p1200)
  have B0: "B \<noteq> 0" unfolding B_def by simp
  have "npv64 [Fin 1, Fin 1] (Fin B) = Inl OverflowError"
    by (simp add: npv64_def discount_term_def fdiv_def r1 r2 r3 r4 power2_eq_square B0)
  then show ?thesis unfolding B_def .
qed

lemma ball_from_one: "(\<forall>i<n. P (1 + i)) \<longleftrightarrow> (\<forall>t \<in> {1..n}. P t)" for n :: nat
proof
  assume l: "\<forall>i<n. P (1 + i)"
  show "\<forall>t \<in> {1..n}. P t"
  proof
    fix t assume "t \<in> {1..n}"
    then have "t - 1 < n" "1 + (t - 1) = t" by auto
    with l [rule_format, of "t - 1"] show "P t" by simp
  qed
next
  assume "\<forall>t \<in> {1..n}. P t"
  then show "\<forall>i<n. P (1 + i)" by auto
qed





lemma rd_3_2: "round64 (3 / 2) = Fin (3 / 2)"
  by (rule round64_dyadic [where m = 3 and e = "- 1"]) (simp_all add: pow2_def)





text \<open>
  C6. The source has no check of the rate. At rate \<open>-2\<close>, which is below \<open>-1\<close>, the base
  \<open>1 + rate\<close> is \<open>-1\<close>, no divisor is zero, and \<open>npv\<close> returns \<open>-1\<close> on the one cash
  flow \<open>1\<close> instead of failing.
\<close>

theorem npv64_rate_below_minus_one_counterexample:
  "fgt (Fin (- 1)) (Fin (- 2)) \<and> npv64 [Fin 1] (Fin (- 2)) = Inr (Fin (- 1))"
  by (simp add: npv64_def discount_term_def fdiv_def)

text \<open>
  C6, as the code behaves. \<open>npv\<close> returns exactly when every power \<open>(1 + rate) ** t\<close>,
  \<open>t = 1..N\<close>, returns a value other than \<open>0.0\<close>. Otherwise it fails, with
  \<^verbatim>\<open>ZeroDivisionError\<close> or \<^verbatim>\<open>OverflowError\<close> and no other error. At rate \<open>-1\<close> with a
  non-empty sequence it fails with \<^verbatim>\<open>ZeroDivisionError\<close>; on the empty sequence it
  returns \<open>0.0\<close> at every rate.
\<close>

theorem npv64_failure_cases:
  "(rate = Fin (- 1) \<and> cfs \<noteq> [] \<longrightarrow> npv64 cfs rate = Inl ZeroDivisionError)
   \<and> npv64 [] rate = Inr (Fin 0)
   \<and> ((\<exists>v. npv64 cfs rate = Inr v)
        \<longleftrightarrow> (\<forall>t \<in> {1..length cfs}. \<exists>p. fpow (fadd (Fin 1) rate) t = Inr p \<and> p \<noteq> Fin 0))
   \<and> (npv64 cfs rate = Inl e \<longrightarrow> e = ZeroDivisionError \<or> e = OverflowError)"
proof (intro conjI impI)
  assume "rate = Fin (- 1) \<and> cfs \<noteq> []"
  then show "npv64 cfs rate = Inl ZeroDivisionError"
    by (cases cfs) (simp_all add: npv64_def discount_term_def fdiv_def)
next
  show "npv64 [] rate = Inr (Fin 0)" by (simp add: npv64_def)
next
  have "(\<exists>v. npv64 cfs rate = Inr v)
      \<longleftrightarrow> (\<forall>i<length cfs. \<exists>p. fpow (fadd (Fin 1) rate) (1 + i) = Inr p \<and> p \<noteq> Fin 0)"
    unfolding npv64_def npv64_loop_returns discount_term_returns ..
  also have "\<dots> \<longleftrightarrow> (\<forall>t \<in> {1..length cfs}. \<exists>p. fpow (fadd (Fin 1) rate) t = Inr p \<and> p \<noteq> Fin 0)"
    by (rule ball_from_one)
  finally show "(\<exists>v. npv64 cfs rate = Inr v)
        \<longleftrightarrow> (\<forall>t \<in> {1..length cfs}. \<exists>p. fpow (fadd (Fin 1) rate) t = Inr p \<and> p \<noteq> Fin 0)" .
next
  assume "npv64 cfs rate = Inl e"
  then show "e = ZeroDivisionError \<or> e = OverflowError"
    unfolding npv64_def by (rule npv64_loop_error)
qed

theorem npv64_failure_cases_witness:
  "npv64 [Fin 5, Fin 7] (Fin (- 1)) = Inl ZeroDivisionError
   \<and> npv64 [] (Fin (- 1)) = Inr (Fin 0)
   \<and> (\<exists>v. npv64 [Fin 5, Fin 7] (Fin (- 2)) = Inr v)
   \<and> npv64 [Fin 1, Fin 1] (Fin (2 ^ 600)) = Inl OverflowError"
proof -
  note T = npv64_failure_cases [of "Fin (- 1)" "[Fin 5, Fin 7]" OverflowError]
  have a: "npv64 [Fin 5, Fin 7] (Fin (- 1)) = Inl ZeroDivisionError" using T by simp
  have b: "npv64 [] (Fin (- 1)) = Inr (Fin 0)" using T by blast
  have "\<forall>t \<in> {1..length [Fin 5, Fin 7]}. \<exists>p. fpow (fadd (Fin 1) (Fin (- 2))) t = Inr p \<and> p \<noteq> Fin 0"
  proof
    fix t :: nat assume "t \<in> {1..length [Fin 5, Fin 7]}"
    then have "t = 1 \<or> t = 2" by auto
    then show "\<exists>p. fpow (fadd (Fin 1) (Fin (- 2))) t = Inr p \<and> p \<noteq> Fin 0"
      by (auto simp: numeral_2_eq_2)
  qed
  with npv64_failure_cases [of "Fin (- 2)" "[Fin 5, Fin 7]" OverflowError]
  have c: "\<exists>v. npv64 [Fin 5, Fin 7] (Fin (- 2)) = Inr v" by blast
  from a b c npv64_overflow_eval show ?thesis by blast
qed

subsection \<open>Order of the operations on non-negative values\<close>






lemma fgt_PosInf_right [simp]: "fgt v PosInf = False"
  by (cases v) simp_all

lemma fgt_NaN_right [simp]: "fgt v NaN = False"
  by (cases v) simp_all

















lemma revenues64_loop_closed:
  "revenues64_loop n vals cur growth
     = vals @ map (\<lambda>i. py_round64 (((\<lambda>c. fmul c (fadd (Fin 1) growth)) ^^ i) cur) 2) [0..<n]"
proof (induction n arbitrary: vals cur)
  case 0
  show ?case by simp
next
  case (Suc n)
  let ?f = "\<lambda>c. fmul c (fadd (Fin 1) growth)"
  have sw: "(?f ^^ i) (?f c) = ?f ((?f ^^ i) c)" for i c
    by (rule funpow_swap1 [symmetric])
  have "map (\<lambda>i. py_round64 ((?f ^^ i) cur) 2) [0..<Suc n]
      = py_round64 cur 2 # map (\<lambda>i. py_round64 ((?f ^^ i) (?f cur)) 2) [0..<n]"
    by (simp only: map_upt_Suc) (simp add: sw)
  then show ?case by (simp add: Suc.IH)
qed

lemma fmul_one: "is_b64 v \<Longrightarrow> fmul v (Fin 1) = v"
  by (cases v) (simp_all add: is_b64_def)

lemma funpow_fmul_one: "is_b64 v \<Longrightarrow> ((\<lambda>c. fmul c (Fin 1)) ^^ i) v = v"
  by (induction i) (simp_all add: fmul_one)

text \<open>
  C4, as the code behaves. For \<open>years \<ge> 1\<close>, \<open>generate_revenues\<close> returns \<open>years\<close> values;
  the value at index \<open>i\<close> is \<open>round(cur, 2)\<close> for the running value \<open>cur\<close> obtained from
  \<open>start\<close> by \<open>i\<close> binary64 multiplications by \<open>1 + growth\<close>, the rounded copy never being
  fed back. With growth \<open>0.0\<close> and a binary64 \<open>start\<close> the result is \<open>years\<close> copies of
  \<open>round(start, 2)\<close>.
\<close>

theorem generate_revenues64_running_product:
  "1 \<le> years \<Longrightarrow>
   int (length (generate_revenues64 years start growth)) = years
   \<and> (\<forall>i < nat years.
         generate_revenues64 years start growth ! i
           = py_round64 (((\<lambda>cur. fmul cur (fadd (Fin 1) growth)) ^^ i) start) 2)
   \<and> (is_b64 start \<longrightarrow>
         generate_revenues64 years start (Fin 0) = replicate (nat years) (py_round64 start 2))"
proof -
  assume y: "1 \<le> years"
  have g: "generate_revenues64 years start gr
      = map (\<lambda>i. py_round64 (((\<lambda>cur. fmul cur (fadd (Fin 1) gr)) ^^ i) start) 2) [0..<nat years]"
    for gr
    by (simp add: generate_revenues64_def revenues64_loop_closed)
  have a: "int (length (generate_revenues64 years start growth)) = years"
    using y by (simp add: g)
  have b: "\<forall>i < nat years.
         generate_revenues64 years start growth ! i
           = py_round64 (((\<lambda>cur. fmul cur (fadd (Fin 1) growth)) ^^ i) start) 2"
    by (simp add: g)
  have c: "generate_revenues64 years start (Fin 0) = replicate (nat years) (py_round64 start 2)"
    if "is_b64 start"
    using that by (simp add: g funpow_fmul_one map_replicate_const)
  from a b c show ?thesis by blast
qed

lemma funpow_numeral2: "(f ^^ 2) x = f (f x)"
  by (simp add: numeral_2_eq_2)

lemma rhe_numeral [simp]: "round_half_even (numeral n) = numeral n"
  using rhe_of_int [of "numeral n"] by simp

theorem generate_revenues64_running_product_witness:
  "(1 :: int) \<le> 3
   \<and> length (generate_revenues64 3 (Fin 100) (Fin (1 / 2))) = 3
   \<and> generate_revenues64 3 (Fin 100) (Fin (1 / 2)) ! 0 = Fin 100
   \<and> generate_revenues64 3 (Fin 100) (Fin (1 / 2)) ! 1 = Fin 150
   \<and> generate_revenues64 3 (Fin 100) (Fin (1 / 2)) ! 2 = Fin 225
   \<and> generate_revenues64 3 (Fin 100) (Fin 0) = [Fin 100, Fin 100, Fin 100]"
proof -
  have h: "(1 :: int) \<le> 3" by simp
  note t = generate_revenues64_running_product [OF h, of "Fin 100"]
  have b: "fadd (Fin 1) (Fin (1 / 2)) = Fin (3 / 2)" by (simp add: rd_3_2)
  have r: "py_round64 (Fin 100) 2 = Fin 100" "py_round64 (Fin 150) 2 = Fin 150"
    "py_round64 (Fin 225) 2 = Fin 225"
    by (simp_all add: py_round64_def)
  have l: "length (generate_revenues64 3 (Fin 100) (Fin (1 / 2))) = 3"
    using t [of "Fin (1 / 2)"] by simp
  note el = t [of "Fin (1 / 2)", THEN conjunct2, THEN conjunct1, rule_format]
  have m: "fmul (Fin 100) (Fin (3 / 2)) = Fin 150" "fmul (Fin 150) (Fin (3 / 2)) = Fin 225"
    by simp_all
  have e: "generate_revenues64 3 (Fin 100) (Fin (1 / 2)) ! 0 = Fin 100"
    "generate_revenues64 3 (Fin 100) (Fin (1 / 2)) ! 1 = Fin 150"
    "generate_revenues64 3 (Fin 100) (Fin (1 / 2)) ! 2 = Fin 225"
    using el [of 0] el [of 1] el [of 2] r by (simp_all add: rd_3_2 funpow_numeral2)
  have "is_b64 (Fin 100)" by (simp add: is_b64_def)
  with t [of "Fin 0"] r(1)
  have z: "generate_revenues64 3 (Fin 100) (Fin 0) = [Fin 100, Fin 100, Fin 100]"
    by (simp add: numeral_3_eq_3)
  from h l e z show ?thesis by blast
qed

lemma fpow_Fin:
  "0 < t \<Longrightarrow> fpow (Fin b) t =
     (case round64 (b ^ t) of
        PosInf \<Rightarrow> Inl OverflowError
      | NegInf \<Rightarrow> Inl OverflowError
      | v \<Rightarrow> Inr v)"
  by (cases t) simp_all

text \<open>
  C4. With \<open>start = 1000000.0\<close> and \<open>growth = -0.025\<close> the running value after three
  binary64 multiplications is exactly \<open>926859.375\<close>, which \<open>round\<close> takes to the even cent
  \<open>926859.38\<close>; the exact product \<open>start * (1 + growth) ^ 3\<close> lies just below \<open>926859.375\<close>
  and rounds to \<open>926859.37\<close>, and so does the binary64 product \<open>start * (1 + growth) ** 3\<close>.
  The stored element differs from \<open>round(start * (1 + growth) ^ 3, 2)\<close> by a cent.
\<close>

theorem generate_revenues64_cent_counterexample:
  "round64 (- 25 / 1000) = Fin (- (3602879701896397 / 2 ^ 57))
   \<and> generate_revenues64 4 (Fin 1000000) (Fin (- (3602879701896397 / 2 ^ 57))) ! 3
       = round64 (92685938 / 100)
   \<and> py_round64 (Fin (1000000 * (1 + - (3602879701896397 / 2 ^ 57)) ^ 3)) 2
       = round64 (92685937 / 100)
   \<and> fpow (fadd (Fin 1) (Fin (- (3602879701896397 / 2 ^ 57)))) 3
       = Inr (Fin (8348407071749701 / 2 ^ 53))
   \<and> py_round64 (fmul (Fin 1000000) (Fin (8348407071749701 / 2 ^ 53))) 2
       = round64 (92685937 / 100)
   \<and> round64 (92685938 / 100) \<noteq> round64 (92685937 / 100)"
proof -
  define G :: real where "G = - (3602879701896397 / 2 ^ 57)"
  define B :: real where "B = 8782019273372467 / 2 ^ 53"
  define P :: real where "P = 8348407071749701 / 2 ^ 53"
  define X :: real where "X = 7961661407231999 / 2 ^ 33"
  have lit: "round64 (- 25 / 1000) = Fin G"
    unfolding G_def
    by (subst round64_eval [where k = "- 6" and e = "- 58"]) (simp_all add: round64_eval_simps)
  have rb: "round64 (1 + G) = Fin B"
    unfolding G_def B_def
    by (subst round64_eval [where k = "- 1" and e = "- 53"]) (simp_all add: round64_eval_simps)
  have c1: "round64 (1000000 * B) = Fin 975000"
    unfolding B_def
    by (subst round64_eval [where k = 19 and e = "- 33"]) (simp_all add: round64_eval_simps)
  have c2: "round64 (975000 * B) = Fin 950625"
    unfolding B_def
    by (subst round64_eval [where k = 19 and e = "- 33"]) (simp_all add: round64_eval_simps)
  have c3: "round64 (950625 * B) = Fin (7414875 / 8)"
    unfolding B_def
    by (subst round64_eval [where k = 19 and e = "- 33"]) (simp_all add: round64_eval_simps)
  have tie: "round_half_even (7414875 / 8 * 10 ^ 2) = 92685938"
    by (simp add: round_half_even_def Let_def)
  have ex: "round_half_even (1000000 * (1 + G) ^ 3 * 10 ^ 2) = 92685937"
    unfolding G_def by (simp add: round_half_even_def Let_def power3_eq_cube)
  have rp: "round64 (B ^ 3) = Fin P"
    unfolding B_def P_def
    by (subst round64_eval [where k = "- 1" and e = "- 53"])
      (simp_all add: round64_eval_simps power3_eq_cube)
  have rx: "round64 (1000000 * P) = Fin X"
    unfolding P_def X_def
    by (subst round64_eval [where k = 19 and e = "- 33"]) (simp_all add: round64_eval_simps)
  have cl: "round_half_even (X * 10 ^ 2) = 92685937"
    unfolding X_def by (simp add: round_half_even_def Let_def)
  have v38: "round64 (92685938 / 100) = Fin (7961661450181673 / 2 ^ 33)"
    by (subst round64_eval [where k = 19 and e = "- 33"]) (simp_all add: round64_eval_simps)
  have v37: "round64 (92685937 / 100) = Fin (7961661364282327 / 2 ^ 33)"
    by (subst round64_eval [where k = 19 and e = "- 33"]) (simp_all add: round64_eval_simps)
  have ne: "round64 (92685938 / 100) \<noteq> round64 (92685937 / 100)"
    unfolding v38 v37 by simp
  have el: "generate_revenues64 4 (Fin 1000000) (Fin G) ! 3 = round64 (92685938 / 100)"
    by (simp add: generate_revenues64_def eval_nat_numeral rb c1 c2 c3 py_round64_def [of "Fin (7414875 / 8)"] tie [simplified])
  have exact: "py_round64 (Fin (1000000 * (1 + G) ^ 3)) 2 = round64 (92685937 / 100)"
    by (simp only: py_round64_def pyfloat.case ex) simp
  have pw: "fpow (fadd (Fin 1) (Fin G)) 3 = Inr (Fin P)"
    by (simp add: rb fpow_Fin rp)
  have closed: "py_round64 (fmul (Fin 1000000) (Fin P)) 2 = round64 (92685937 / 100)"
    by (simp only: fmul.simps rx py_round64_def pyfloat.case cl) simp
  from lit el exact pw closed ne show ?thesis unfolding G_def P_def by blast
qed

end
